theory Spec2Isabelle
  imports Main "HOL-Library.Word"
begin

section \<open>Configuration snapshots\<close>

text \<open>
  The file \<^verbatim>\<open>pkg/bgp/config/serve.go\<close> declares \<^verbatim>\<open>BgpConfigSet\<close> and the functions
  \<^verbatim>\<open>ReadConfigfileServe\<close>, \<^verbatim>\<open>UpdatePeerGroupConfig\<close>, \<^verbatim>\<open>UpdateNeighborConfig\<close> and
  \<^verbatim>\<open>CheckPolicyDifference\<close>. The element types \<^verbatim>\<open>PeerGroup\<close>, \<^verbatim>\<open>Neighbor\<close> and
  \<^verbatim>\<open>RoutingPolicy\<close>, their \<^verbatim>\<open>Equal\<close> methods and the lookups \<^verbatim>\<open>existPeerGroup\<close> and
  \<^verbatim>\<open>inSlice\<close> belong to other files of the package. Each record below keeps the fields
  that \<^verbatim>\<open>serve.go\<close> or the specification names; whatever else the Go struct carries
  lives in the extension slot of the record, so every statement over a
  \<open>_scheme\<close> type holds for any further payload.
\<close>

text \<open>
  Modelled from the spec: the type \<^verbatim>\<open>PeerGroup\<close> is declared outside \<^verbatim>\<open>serve.go\<close>.
  The code reads \<^verbatim>\<open>n.Config.PeerGroupName\<close>; the specification identifies a PeerGroup by
  its name and uses an AS number as the example of a further configured field.
\<close>

record PeerGroupConfig =
  PeerGroupName :: string
  PeerAs :: "32 word"

record PeerGroup =
  Config :: PeerGroupConfig

text \<open>
  Modelled from the spec: the type \<^verbatim>\<open>Neighbor\<close> is declared outside \<^verbatim>\<open>serve.go\<close>.
  The specification identifies a Neighbor by its peer address.
\<close>

record Neighbor =
  NeighborAddress :: string

text \<open>
  \<^verbatim>\<open>BgpConfigSet\<close>, lines 14 to 27. Only \<^verbatim>\<open>Neighbors\<close> and \<^verbatim>\<open>PeerGroups\<close> are read by
  the functions modelled here; \<^verbatim>\<open>Global\<close>, \<^verbatim>\<open>RpkiServers\<close>, \<^verbatim>\<open>BmpServers\<close>, \<^verbatim>\<open>Vrfs\<close>,
  \<^verbatim>\<open>MrtDump\<close>, \<^verbatim>\<open>Collector\<close>, \<^verbatim>\<open>DefinedSets\<close>, \<^verbatim>\<open>PolicyDefinitions\<close>,
  \<^verbatim>\<open>DynamicNeighbors\<close> and \<^verbatim>\<open>PorterConfig\<close> stay in the extension slot.
\<close>

record ('nb, 'pg) BgpConfigSet =
  Neighbors :: "'nb Neighbor_scheme list"
  PeerGroups :: "'pg PeerGroup_scheme list"

text \<open>
  Modelled from the spec: the type \<^verbatim>\<open>RoutingPolicy\<close> is declared outside \<^verbatim>\<open>serve.go\<close>;
  \<^verbatim>\<open>ConfigSetToRoutingPolicy\<close> (lines 102 to 107) fills its two fields. The types of
  the defined sets and of one policy definition are parameters.
\<close>

record ('ds, 'pd) RoutingPolicy =
  DefinedSets :: 'ds
  PolicyDefinitions :: "'pd list"

section \<open>Helpers of the package that the diff functions call\<close>

text \<open>
  Modelled from the spec: \<^verbatim>\<open>PeerGroup.Equal\<close> is defined outside \<^verbatim>\<open>serve.go\<close>. The
  specification calls it a full structural comparison over all configured fields.
\<close>

definition PeerGroup_Equal :: "'a PeerGroup_scheme \<Rightarrow> 'a PeerGroup_scheme \<Rightarrow> bool" where
  "PeerGroup_Equal lhs rhs = (lhs = rhs)"

text \<open>
  Modelled from the spec: \<^verbatim>\<open>Neighbor.Equal\<close> is defined outside \<^verbatim>\<open>serve.go\<close>; the
  specification requires deep equality of the two values.
\<close>

definition Neighbor_Equal :: "'a Neighbor_scheme \<Rightarrow> 'a Neighbor_scheme \<Rightarrow> bool" where
  "Neighbor_Equal lhs rhs = (lhs = rhs)"

text \<open>
  Modelled from the spec: \<^verbatim>\<open>RoutingPolicy.Equal\<close> is defined outside \<^verbatim>\<open>serve.go\<close>. The
  specification describes it as the structural comparison of the defined sets and of
  the whole ordered sequence of policy definitions.
\<close>

definition RoutingPolicy_Equal ::
  "('ds, 'pd) RoutingPolicy \<Rightarrow> ('ds, 'pd) RoutingPolicy \<Rightarrow> bool" where
  "RoutingPolicy_Equal lhs rhs =
     (DefinedSets lhs = DefinedSets rhs \<and> PolicyDefinitions lhs = PolicyDefinitions rhs)"

text \<open>
  Modelled from the spec: \<^verbatim>\<open>existPeerGroup\<close> is defined outside \<^verbatim>\<open>serve.go\<close>. The
  specification says the lookup is by name; \<^verbatim>\<open>serve.go\<close> uses the result as an index into
  the slice and a negative result as "absent". The model scans the slice from the
  front and returns the first index whose name matches, \<open>-1\<close> when none does.
\<close>

fun existPeerGroup_from :: "int \<Rightarrow> string \<Rightarrow> 'a PeerGroup_scheme list \<Rightarrow> int" where
  "existPeerGroup_from i n [] = - 1"
| "existPeerGroup_from i n (nb # b) =
     (if PeerGroupName (Config nb) = n then i else existPeerGroup_from (i + 1) n b)"

definition existPeerGroup :: "string \<Rightarrow> 'a PeerGroup_scheme list \<Rightarrow> int" where
  "existPeerGroup n b = existPeerGroup_from 0 n b"

text \<open>
  Modelled from the spec: \<^verbatim>\<open>inSlice\<close> is defined outside \<^verbatim>\<open>serve.go\<close>. The specification
  keys the Neighbor lookup by peer address; the result is used like that of
  \<^verbatim>\<open>existPeerGroup\<close>.
\<close>

fun inSlice_from :: "int \<Rightarrow> 'a Neighbor_scheme \<Rightarrow> 'a Neighbor_scheme list \<Rightarrow> int" where
  "inSlice_from i n [] = - 1"
| "inSlice_from i n (nb # b) =
     (if NeighborAddress nb = NeighborAddress n then i else inSlice_from (i + 1) n b)"

definition inSlice :: "'a Neighbor_scheme \<Rightarrow> 'a Neighbor_scheme list \<Rightarrow> int" where
  "inSlice n b = inSlice_from 0 n b"

section \<open>The diff engine\<close>

text \<open>
  Go panics when a slice is indexed out of range. The expressions
  \<^verbatim>\<open>curC.PeerGroups[idx]\<close> and \<^verbatim>\<open>curC.Neighbors[idx]\<close> are therefore checked reads, and
  the diff functions return either the panic or the three slices.
\<close>

datatype panic = IndexOutOfRange

definition slice_index :: "'a list \<Rightarrow> int \<Rightarrow> panic + 'a" where
  "slice_index xs i =
     (if 0 \<le> i \<and> i < int (length xs) then Inr (xs ! nat i) else Inl IndexOutOfRange)"

text \<open>
  \<^verbatim>\<open>UpdatePeerGroupConfig\<close>, lines 109 to 134. The first loop (lines 114 to 126) ranges over
  the new PeerGroups and appends to \<^verbatim>\<open>addedPg\<close> or \<^verbatim>\<open>updatedPg\<close>; the second (lines 128 to
  132) ranges over the current PeerGroups and appends to \<^verbatim>\<open>deletedPg\<close>. The debug log
  lines have no effect on the result and are left out. The function returns
  \<^verbatim>\<open>addedPg, deletedPg, updatedPg\<close>, in this order.
\<close>

fun UpdatePeerGroupConfig_new ::
  "'a PeerGroup_scheme list \<Rightarrow> 'a PeerGroup_scheme list \<Rightarrow>
   'a PeerGroup_scheme list \<times> 'a PeerGroup_scheme list \<Rightarrow>
   panic + ('a PeerGroup_scheme list \<times> 'a PeerGroup_scheme list)" where
  "UpdatePeerGroupConfig_new cur [] acc = Inr acc"
| "UpdatePeerGroupConfig_new cur (n # ns) (addedPg, updatedPg) =
     (let idx = existPeerGroup (PeerGroupName (Config n)) cur in
      if idx < 0 then UpdatePeerGroupConfig_new cur ns (addedPg @ [n], updatedPg)
      else
        (case slice_index cur idx of
           Inl e \<Rightarrow> Inl e
         | Inr c \<Rightarrow>
             if \<not> PeerGroup_Equal n c
             then UpdatePeerGroupConfig_new cur ns (addedPg, updatedPg @ [n])
             else UpdatePeerGroupConfig_new cur ns (addedPg, updatedPg)))"

fun UpdatePeerGroupConfig_cur ::
  "'a PeerGroup_scheme list \<Rightarrow> 'a PeerGroup_scheme list \<Rightarrow>
   'a PeerGroup_scheme list \<Rightarrow> 'a PeerGroup_scheme list" where
  "UpdatePeerGroupConfig_cur new [] deletedPg = deletedPg"
| "UpdatePeerGroupConfig_cur new (n # ns) deletedPg =
     (if existPeerGroup (PeerGroupName (Config n)) new < 0
      then UpdatePeerGroupConfig_cur new ns (deletedPg @ [n])
      else UpdatePeerGroupConfig_cur new ns deletedPg)"

definition UpdatePeerGroupConfig ::
  "('nb, 'pg, 'z) BgpConfigSet_scheme \<Rightarrow> ('nb, 'pg, 'z) BgpConfigSet_scheme \<Rightarrow>
   panic + ('pg PeerGroup_scheme list \<times> 'pg PeerGroup_scheme list \<times> 'pg PeerGroup_scheme list)"
  where
  "UpdatePeerGroupConfig curC newC =
     (case UpdatePeerGroupConfig_new (PeerGroups curC) (PeerGroups newC) ([], []) of
        Inl e \<Rightarrow> Inl e
      | Inr (addedPg, updatedPg) \<Rightarrow>
          Inr (addedPg,
               UpdatePeerGroupConfig_cur (PeerGroups newC) (PeerGroups curC) [],
               updatedPg))"

text \<open>
  \<^verbatim>\<open>UpdateNeighborConfig\<close>, lines 136 to 161: the same two loops over the Neighbors, with
  \<^verbatim>\<open>inSlice\<close> as the lookup.
\<close>

fun UpdateNeighborConfig_new ::
  "'a Neighbor_scheme list \<Rightarrow> 'a Neighbor_scheme list \<Rightarrow>
   'a Neighbor_scheme list \<times> 'a Neighbor_scheme list \<Rightarrow>
   panic + ('a Neighbor_scheme list \<times> 'a Neighbor_scheme list)" where
  "UpdateNeighborConfig_new cur [] acc = Inr acc"
| "UpdateNeighborConfig_new cur (n # ns) (added, updated) =
     (let idx = inSlice n cur in
      if idx < 0 then UpdateNeighborConfig_new cur ns (added @ [n], updated)
      else
        (case slice_index cur idx of
           Inl e \<Rightarrow> Inl e
         | Inr c \<Rightarrow>
             if \<not> Neighbor_Equal n c
             then UpdateNeighborConfig_new cur ns (added, updated @ [n])
             else UpdateNeighborConfig_new cur ns (added, updated)))"

fun UpdateNeighborConfig_cur ::
  "'a Neighbor_scheme list \<Rightarrow> 'a Neighbor_scheme list \<Rightarrow>
   'a Neighbor_scheme list \<Rightarrow> 'a Neighbor_scheme list" where
  "UpdateNeighborConfig_cur new [] deleted = deleted"
| "UpdateNeighborConfig_cur new (n # ns) deleted =
     (if inSlice n new < 0
      then UpdateNeighborConfig_cur new ns (deleted @ [n])
      else UpdateNeighborConfig_cur new ns deleted)"

definition UpdateNeighborConfig ::
  "('nb, 'pg, 'z) BgpConfigSet_scheme \<Rightarrow> ('nb, 'pg, 'z) BgpConfigSet_scheme \<Rightarrow>
   panic + ('nb Neighbor_scheme list \<times> 'nb Neighbor_scheme list \<times> 'nb Neighbor_scheme list)"
  where
  "UpdateNeighborConfig curC newC =
     (case UpdateNeighborConfig_new (Neighbors curC) (Neighbors newC) ([], []) of
        Inl e \<Rightarrow> Inl e
      | Inr (added, updated) \<Rightarrow>
          Inr (added,
               UpdateNeighborConfig_cur (Neighbors newC) (Neighbors curC) [],
               updated))"

text \<open>
  \<^verbatim>\<open>CheckPolicyDifference\<close>, lines 163 to 183. A Go pointer that may be \<^verbatim>\<open>nil\<close> is an
  \<open>option\<close>; the two debug log lines are left out.
\<close>

definition CheckPolicyDifference ::
  "('ds, 'pd) RoutingPolicy option \<Rightarrow> ('ds, 'pd) RoutingPolicy option \<Rightarrow> bool" where
  "CheckPolicyDifference currentPolicy newPolicy =
     (if currentPolicy = None \<and> newPolicy = None then False
      else if currentPolicy \<noteq> None \<and> newPolicy \<noteq> None
           then \<not> RoutingPolicy_Equal (the currentPolicy) (the newPolicy)
           else True)"

section \<open>The specification's diff, in its own words\<close>

text \<open>
  The specification describes each diff declaratively: an entity of the new snapshot is
  looked up by its identity key in the old one; not found means added, found but not
  deep-equal means updated (with the new value), found and deep-equal means omitted;
  an entity of the old snapshot whose key is absent from the new one is deleted. The
  two definitions below follow these words, for comparison with the loops above.
\<close>

definition lookup_PeerGroup ::
  "string \<Rightarrow> 'a PeerGroup_scheme list \<Rightarrow> 'a PeerGroup_scheme option" where
  "lookup_PeerGroup name pgs = find (\<lambda>p. PeerGroupName (Config p) = name) pgs"

definition PeerGroupDiff ::
  "'a PeerGroup_scheme list \<Rightarrow> 'a PeerGroup_scheme list \<Rightarrow>
   'a PeerGroup_scheme list \<times> 'a PeerGroup_scheme list \<times> 'a PeerGroup_scheme list" where
  "PeerGroupDiff old new =
     (filter (\<lambda>n. lookup_PeerGroup (PeerGroupName (Config n)) old = None) new,
      filter (\<lambda>n. lookup_PeerGroup (PeerGroupName (Config n)) new = None) old,
      filter (\<lambda>n. case lookup_PeerGroup (PeerGroupName (Config n)) old of
                     None \<Rightarrow> False
                   | Some c \<Rightarrow> \<not> PeerGroup_Equal n c) new)"

definition lookup_Neighbor ::
  "string \<Rightarrow> 'a Neighbor_scheme list \<Rightarrow> 'a Neighbor_scheme option" where
  "lookup_Neighbor addr nbs = find (\<lambda>p. NeighborAddress p = addr) nbs"

definition NeighborDiff ::
  "'a Neighbor_scheme list \<Rightarrow> 'a Neighbor_scheme list \<Rightarrow>
   'a Neighbor_scheme list \<times> 'a Neighbor_scheme list \<times> 'a Neighbor_scheme list" where
  "NeighborDiff old new =
     (filter (\<lambda>n. lookup_Neighbor (NeighborAddress n) old = None) new,
      filter (\<lambda>n. lookup_Neighbor (NeighborAddress n) new = None) old,
      filter (\<lambda>n. case lookup_Neighbor (NeighborAddress n) old of
                     None \<Rightarrow> False
                   | Some c \<Rightarrow> \<not> Neighbor_Equal n c) new)"

text \<open>Invariant I1 of the specification: identity keys are unique within a snapshot.\<close>

definition unique_PeerGroup_names :: "('nb, 'pg, 'z) BgpConfigSet_scheme \<Rightarrow> bool" where
  "unique_PeerGroup_names c = distinct (map (\<lambda>p. PeerGroupName (Config p)) (PeerGroups c))"

definition unique_Neighbor_addresses :: "('nb, 'pg, 'z) BgpConfigSet_scheme \<Rightarrow> bool" where
  "unique_Neighbor_addresses c = distinct (map NeighborAddress (Neighbors c))"

text \<open>Builders for the snapshots of the specification's scenarios.\<close>

definition peer_group :: "string \<Rightarrow> 32 word \<Rightarrow> PeerGroup" where
  "peer_group name asn = \<lparr>Config = \<lparr>PeerGroupName = name, PeerAs = asn\<rparr>\<rparr>"

definition neighbor :: "string \<Rightarrow> Neighbor" where
  "neighbor addr = \<lparr>NeighborAddress = addr\<rparr>"

definition snapshot :: "Neighbor list \<Rightarrow> PeerGroup list \<Rightarrow> (unit, unit) BgpConfigSet" where
  "snapshot nbs pgs = \<lparr>Neighbors = nbs, PeerGroups = pgs\<rparr>"

section \<open>The reload loop\<close>

text \<open>
  \<^verbatim>\<open>ReadConfigfileServe\<close>, lines 44 to 100. Lines 45 to 57 register the signal channel
  and configure the reader; the loop of lines 60 to 99 is modelled. The loop observes
  its environment in two places: the result of \<^verbatim>\<open>ReadConfigfile(v)\<close> (line 61), which is
  either an error or a snapshot, and the receive on \<^verbatim>\<open>sigReloadConfig\<close> (line 95). A run
  of the loop is driven by the list of results that the successive calls of
  \<^verbatim>\<open>ReadConfigfile\<close> return: one pass through the loop body consumes one result. What
  the loop does is recorded, in order, in a trace of actions; the blocking receive of
  line 95 is the action \<open>Receive\<close>, the blocking send of line 80 is \<open>Send\<close>. A run
  follows the loop for as many loads as the list has results, so a receive or a send
  that it records has completed: the notification arrived, the consumer took the
  snapshot. The loop itself never returns; it ends only by \<^verbatim>\<open>os.Exit\<close>.
\<close>

text \<open>
  The error kinds that the specification gives to a load; \<^verbatim>\<open>os.IsNotExist\<close> holds of
  the first one only.
\<close>

datatype error = NotFound | ParseError | DefaultsError

definition os_IsNotExist :: "error \<Rightarrow> bool" where
  "os_IsNotExist err = (err = NotFound)"

text \<open>One constructor for each log statement of the loop, named by level and message.\<close>

datatype log_entry =
    Warn_config_file_not_loaded
  | Error_config_file_not_loaded_max_times_exceed
  | Info_Finished_reading_the_config_file
  | Fatal_Cant_read_config_file error
  | Warning_Cant_reload_config_file error
  | Info_Reload_the_config_file

text \<open>
  \<open>Sleep 5\<close> is \<^verbatim>\<open>time.Sleep(5)\<close>; \<open>Exit 1\<close> is the \<^verbatim>\<open>os.Exit(1)\<close> with which logrus
  ends \<^verbatim>\<open>Fatalf\<close>.
\<close>

datatype 'c action = Log log_entry | Sleep nat | Send 'c | Receive | Exit nat

text \<open>
  \<^verbatim>\<open>cnt\<close> and \<^verbatim>\<open>notFoundCnt\<close> are Go \<^verbatim>\<open>int\<close>s: 64-bit two's complement on the 64-bit
  targets, where \<^verbatim>\<open>++\<close> wraps around. \<^verbatim>\<open>notFoundCnt < 5\<close> is a signed comparison.
\<close>

type_synonym go_int = "64 word"

record 'c serve_state =
  cnt :: go_int
  notFoundCnt :: go_int
  trace :: "'c action list"
  exited :: bool

definition emit :: "'c action list \<Rightarrow> 'c serve_state \<Rightarrow> 'c serve_state" where
  "emit as s = s\<lparr>trace := trace s @ as\<rparr>"

text \<open>Label \<^verbatim>\<open>NEXT\<close>, lines 94 to 98.\<close>

definition serve_NEXT :: "'c serve_state \<Rightarrow> 'c serve_state" where
  "serve_NEXT s = emit [Receive, Log Info_Reload_the_config_file] s"

text \<open>Label \<^verbatim>\<open>ERROR\<close>, lines 82 to 93, which falls through to \<^verbatim>\<open>NEXT\<close> when it warns.\<close>

definition serve_ERROR :: "error \<Rightarrow> 'c serve_state \<Rightarrow> 'c serve_state" where
  "serve_ERROR err s =
     (if cnt s = 0
      then (emit [Log (Fatal_Cant_read_config_file err), Exit 1] s)\<lparr>exited := True\<rparr>
      else serve_NEXT (emit [Log (Warning_Cant_reload_config_file err)] s))"

text \<open>One pass through the loop body, lines 61 to 98, on the result of line 61.\<close>

definition serve_body :: "'c serve_state \<Rightarrow> error + 'c \<Rightarrow> 'c serve_state" where
  "serve_body s r =
     (case r of
        Inl err \<Rightarrow>
          if os_IsNotExist err
          then
            (let s1 = emit [Log Warn_config_file_not_loaded] s;
                 s2 = s1\<lparr>notFoundCnt := notFoundCnt s1 + 1\<rparr>
             in if sint (notFoundCnt s2) < 5
                then emit [Sleep 5] s2
                else serve_ERROR err
                       (emit [Log Error_config_file_not_loaded_max_times_exceed] s2))
          else serve_ERROR err s
      | Inr c \<Rightarrow>
          (let s1 = (if cnt s = 0
                     then emit [Log Info_Finished_reading_the_config_file] s
                     else s);
               s2 = s1\<lparr>cnt := cnt s1 + 1\<rparr>;
               s3 = emit [Send c] s2
           in serve_NEXT s3))"

text \<open>After \<^verbatim>\<open>os.Exit\<close> the process is gone: no further pass happens.\<close>

definition serve_step :: "'c serve_state \<Rightarrow> error + 'c \<Rightarrow> 'c serve_state" where
  "serve_step s r = (if exited s then s else serve_body s r)"

text \<open>
  The loop, started as line 58 does (\<^verbatim>\<open>cnt, notFoundCnt := 0, 0\<close>) and run on the
  results of its successive loads.
\<close>

definition ReadConfigfileServe :: "(error + 'c) list \<Rightarrow> 'c serve_state" where
  "ReadConfigfileServe rs =
     foldl serve_step \<lparr>cnt = 0, notFoundCnt = 0, trace = [], exited = False\<rparr> rs"

text \<open>
  What a trace says about the consumer channel: the snapshots sent, in order, and the
  one the consumer holds as current, which is the last one sent.
\<close>

fun sent :: "'c action list \<Rightarrow> 'c list" where
  "sent [] = []"
| "sent (Send c # as) = c # sent as"
| "sent (a # as) = sent as"

definition current_snapshot :: "'c action list \<Rightarrow> 'c option" where
  "current_snapshot as = (if sent as = [] then None else Some (last (sent as)))"

text \<open>The number of load results that are \<open>NotFound\<close> failures.\<close>

definition not_found_failures :: "(error + 'c) list \<Rightarrow> nat" where
  "not_found_failures rs = length (filter (\<lambda>r. r = Inl NotFound) rs)"

text \<open>
  The invariant of a run on the results \<open>rs\<close>: \<^verbatim>\<open>cnt\<close> counts the snapshots sent, a
  process that has exited never sent one, and \<^verbatim>\<open>notFoundCnt\<close> counts the \<open>NotFound\<close>
  failures. The counters are read modulo \<open>2 ^ 64\<close>.
\<close>

definition serve_inv :: "(error + 'c) list \<Rightarrow> 'c serve_state \<Rightarrow> bool" where
  "serve_inv rs s =
     (length (sent (trace s)) \<le> length rs \<and>
      (exited s \<longrightarrow> sent (trace s) = []) \<and>
      (\<not> exited s \<longrightarrow>
         cnt s = of_nat (length (sent (trace s))) \<and>
         notFoundCnt s = of_nat (not_found_failures rs)))"

section \<open>The lookups find the first entry with the key\<close>

lemma existPeerGroup_from_absent:
  "0 \<le> i \<Longrightarrow> (existPeerGroup_from i n b < 0) = (lookup_PeerGroup n b = None)"
  by (induction b arbitrary: i) (auto simp: lookup_PeerGroup_def)

lemma existPeerGroup_from_found:
  "lookup_PeerGroup n b = Some c \<Longrightarrow>
     \<exists>k<length b. existPeerGroup_from i n b = i + int k \<and> b ! k = c"
proof (induction b arbitrary: i)
  case Nil
  then show ?case by (simp add: lookup_PeerGroup_def)
next
  case (Cons nb b)
  show ?case
  proof (cases "PeerGroupName (Config nb) = n")
    case True
    with Cons.prems have "nb = c" by (simp add: lookup_PeerGroup_def)
    with True show ?thesis by (intro exI [of _ 0]) simp
  next
    case False
    with Cons.prems have "lookup_PeerGroup n b = Some c"
      by (simp add: lookup_PeerGroup_def)
    from Cons.IH [OF this, of "i + 1"] obtain k where
      "k < length b" "existPeerGroup_from (i + 1) n b = i + 1 + int k" "b ! k = c"
      by blast
    with False show ?thesis by (intro exI [of _ "Suc k"]) simp
  qed
qed

lemma existPeerGroup_absent: "(existPeerGroup n b < 0) = (lookup_PeerGroup n b = None)"
  by (simp add: existPeerGroup_def existPeerGroup_from_absent)

lemma existPeerGroup_found:
  "lookup_PeerGroup n b = Some c \<Longrightarrow> slice_index b (existPeerGroup n b) = Inr c"
  using existPeerGroup_from_found [of n b c 0]
  by (auto simp: existPeerGroup_def slice_index_def)

lemma inSlice_from_absent:
  "0 \<le> i \<Longrightarrow> (inSlice_from i n b < 0) = (lookup_Neighbor (NeighborAddress n) b = None)"
  by (induction b arbitrary: i) (auto simp: lookup_Neighbor_def)

lemma inSlice_from_found:
  "lookup_Neighbor (NeighborAddress n) b = Some c \<Longrightarrow>
     \<exists>k<length b. inSlice_from i n b = i + int k \<and> b ! k = c"
proof (induction b arbitrary: i)
  case Nil
  then show ?case by (simp add: lookup_Neighbor_def)
next
  case (Cons nb b)
  show ?case
  proof (cases "NeighborAddress nb = NeighborAddress n")
    case True
    with Cons.prems have "nb = c" by (simp add: lookup_Neighbor_def)
    with True show ?thesis by (intro exI [of _ 0]) simp
  next
    case False
    with Cons.prems have "lookup_Neighbor (NeighborAddress n) b = Some c"
      by (simp add: lookup_Neighbor_def)
    from Cons.IH [OF this, of "i + 1"] obtain k where
      "k < length b" "inSlice_from (i + 1) n b = i + 1 + int k" "b ! k = c"
      by blast
    with False show ?thesis by (intro exI [of _ "Suc k"]) simp
  qed
qed

lemma inSlice_absent: "(inSlice n b < 0) = (lookup_Neighbor (NeighborAddress n) b = None)"
  by (simp add: inSlice_def inSlice_from_absent)

lemma inSlice_found:
  "lookup_Neighbor (NeighborAddress n) b = Some c \<Longrightarrow> slice_index b (inSlice n b) = Inr c"
  using inSlice_from_found [of n b c 0]
  by (auto simp: inSlice_def slice_index_def)

section \<open>The loops compute the filters\<close>

lemma UpdatePeerGroupConfig_new_eq:
  "UpdatePeerGroupConfig_new cur ns (a, u) =
     Inr (a @ filter (\<lambda>n. lookup_PeerGroup (PeerGroupName (Config n)) cur = None) ns,
          u @ filter (\<lambda>n. case lookup_PeerGroup (PeerGroupName (Config n)) cur of
                             None \<Rightarrow> False
                           | Some c \<Rightarrow> \<not> PeerGroup_Equal n c) ns)"
proof (induction ns arbitrary: a u)
  case Nil
  show ?case by simp
next
  case (Cons n ns)
  show ?case
  proof (cases "lookup_PeerGroup (PeerGroupName (Config n)) cur")
    case None
    then show ?thesis by (simp add: Cons.IH existPeerGroup_absent)
  next
    case (Some c)
    then have "\<not> existPeerGroup (PeerGroupName (Config n)) cur < 0"
      by (simp add: existPeerGroup_absent)
    with Some show ?thesis
      by (simp add: Cons.IH existPeerGroup_found)
  qed
qed

lemma UpdatePeerGroupConfig_cur_eq:
  "UpdatePeerGroupConfig_cur new ns d =
     d @ filter (\<lambda>n. lookup_PeerGroup (PeerGroupName (Config n)) new = None) ns"
  by (induction ns arbitrary: d) (simp_all add: existPeerGroup_absent)

lemma UpdatePeerGroupConfig_eq:
  "UpdatePeerGroupConfig curC newC = Inr (PeerGroupDiff (PeerGroups curC) (PeerGroups newC))"
  by (simp add: UpdatePeerGroupConfig_def UpdatePeerGroupConfig_new_eq
      UpdatePeerGroupConfig_cur_eq PeerGroupDiff_def)

lemma UpdateNeighborConfig_new_eq:
  "UpdateNeighborConfig_new cur ns (a, u) =
     Inr (a @ filter (\<lambda>n. lookup_Neighbor (NeighborAddress n) cur = None) ns,
          u @ filter (\<lambda>n. case lookup_Neighbor (NeighborAddress n) cur of
                             None \<Rightarrow> False
                           | Some c \<Rightarrow> \<not> Neighbor_Equal n c) ns)"
proof (induction ns arbitrary: a u)
  case Nil
  show ?case by simp
next
  case (Cons n ns)
  show ?case
  proof (cases "lookup_Neighbor (NeighborAddress n) cur")
    case None
    then show ?thesis by (simp add: Cons.IH inSlice_absent)
  next
    case (Some c)
    then have "\<not> inSlice n cur < 0"
      by (simp add: inSlice_absent)
    with Some show ?thesis
      by (simp add: Cons.IH inSlice_found)
  qed
qed

lemma UpdateNeighborConfig_cur_eq:
  "UpdateNeighborConfig_cur new ns d =
     d @ filter (\<lambda>n. lookup_Neighbor (NeighborAddress n) new = None) ns"
  by (induction ns arbitrary: d) (simp_all add: inSlice_absent)

lemma UpdateNeighborConfig_eq:
  "UpdateNeighborConfig curC newC = Inr (NeighborDiff (Neighbors curC) (Neighbors newC))"
  by (simp add: UpdateNeighborConfig_def UpdateNeighborConfig_new_eq
      UpdateNeighborConfig_cur_eq NeighborDiff_def)

lemma find_key_distinct:
  "distinct (map f xs) \<Longrightarrow> x \<in> set xs \<Longrightarrow> find (\<lambda>y. f y = f x) xs = Some x"
  by (induction xs) (auto simp: image_iff)

lemma find_key_None: "(find (\<lambda>y. f y = k) xs = None) = (k \<notin> f ` set xs)"
  by (auto simp: find_None_iff)

section \<open>Runs of the reload loop\<close>

lemma sent_append: "sent (as @ bs) = sent as @ sent bs"
  by (induction as rule: sent.induct) simp_all

lemma ReadConfigfileServe_snoc:
  "ReadConfigfileServe (rs @ [r]) = serve_step (ReadConfigfileServe rs) r"
  by (simp add: ReadConfigfileServe_def)

lemma not_found_failures_snoc:
  "not_found_failures (rs @ [r]) = not_found_failures rs + (if r = Inl NotFound then 1 else 0)"
  by (simp add: not_found_failures_def)

lemma not_found_failures_le: "not_found_failures rs \<le> length rs"
  by (simp add: not_found_failures_def)

lemma go_int_sint_of_nat: "n < 2 ^ 63 \<Longrightarrow> sint (of_nat n :: go_int) = int n"
  by (simp add: signed_of_nat signed_take_bit_int_eq_self)

lemma go_int_of_nat_eq_0: "n < 2 ^ 63 \<Longrightarrow> (of_nat n = (0 :: go_int)) = (n = 0)"
  using of_nat_neq_0 [where 'a = 64, of n] by auto

lemma serve_body_Inr:
  "serve_body s (Inr c) =
     s\<lparr>cnt := cnt s + 1,
       trace := trace s @ (if cnt s = 0 then [Log Info_Finished_reading_the_config_file] else [])
                  @ [Send c, Receive, Log Info_Reload_the_config_file]\<rparr>"
  by (simp add: serve_body_def serve_NEXT_def emit_def)

lemma serve_body_NotFound:
  "serve_body s (Inl NotFound) =
     (if sint (notFoundCnt s + 1) < 5
      then s\<lparr>notFoundCnt := notFoundCnt s + 1,
             trace := trace s @ [Log Warn_config_file_not_loaded, Sleep 5]\<rparr>
      else if cnt s = 0
      then s\<lparr>notFoundCnt := notFoundCnt s + 1,
             trace := trace s @ [Log Warn_config_file_not_loaded,
                                 Log Error_config_file_not_loaded_max_times_exceed,
                                 Log (Fatal_Cant_read_config_file NotFound), Exit 1],
             exited := True\<rparr>
      else s\<lparr>notFoundCnt := notFoundCnt s + 1,
             trace := trace s @ [Log Warn_config_file_not_loaded,
                                 Log Error_config_file_not_loaded_max_times_exceed,
                                 Log (Warning_Cant_reload_config_file NotFound),
                                 Receive, Log Info_Reload_the_config_file]\<rparr>)"
  by (simp add: serve_body_def serve_ERROR_def serve_NEXT_def emit_def os_IsNotExist_def)

lemma serve_body_other:
  "err \<noteq> NotFound \<Longrightarrow>
   serve_body s (Inl err) =
     (if cnt s = 0
      then s\<lparr>trace := trace s @ [Log (Fatal_Cant_read_config_file err), Exit 1],
             exited := True\<rparr>
      else s\<lparr>trace := trace s @ [Log (Warning_Cant_reload_config_file err),
                                 Receive, Log Info_Reload_the_config_file]\<rparr>)"
  by (simp add: serve_body_def serve_ERROR_def serve_NEXT_def emit_def os_IsNotExist_def)

lemma serve_inv_run: "length rs < 2 ^ 63 \<Longrightarrow> serve_inv rs (ReadConfigfileServe rs)"
proof (induction rs rule: rev_induct)
  case Nil
  show ?case by (simp add: serve_inv_def ReadConfigfileServe_def not_found_failures_def)
next
  case (snoc r rs)
  let ?s = "ReadConfigfileServe rs"
  from snoc.prems have len: "length rs < 2 ^ 63" by simp
  from snoc.IH [OF len] have inv: "serve_inv rs ?s" .
  show ?case
  proof (cases "exited ?s")
    case True
    with inv show ?thesis
      by (simp add: ReadConfigfileServe_snoc serve_step_def serve_inv_def)
  next
    case False
    with inv have c: "cnt ?s = of_nat (length (sent (trace ?s)))"
      and n: "notFoundCnt ?s = of_nat (not_found_failures rs)"
      and l: "length (sent (trace ?s)) \<le> length rs"
      by (simp_all add: serve_inv_def)
    from l len have zero: "(cnt ?s = 0) = (sent (trace ?s) = [])"
      by (simp add: c go_int_of_nat_eq_0)
    show ?thesis
    proof (cases r)
      case (Inr v)
      with False c n l show ?thesis
        by (simp add: ReadConfigfileServe_snoc serve_step_def serve_inv_def serve_body_Inr
            sent_append not_found_failures_snoc)
    next
      case (Inl err)
      show ?thesis
      proof (cases "err = NotFound")
        case True
        with Inl False c n l zero show ?thesis
          by (simp add: ReadConfigfileServe_snoc serve_step_def serve_inv_def
              serve_body_NotFound sent_append not_found_failures_snoc)
      next
        case neq: False
        with Inl False c n l zero show ?thesis
          by (simp add: ReadConfigfileServe_snoc serve_step_def serve_inv_def
              serve_body_other sent_append not_found_failures_snoc)
      qed
    qed
  qed
qed


lemma serve_inv_cnt:
  "length rs < 2 ^ 63 \<Longrightarrow> \<not> exited (ReadConfigfileServe rs) \<Longrightarrow>
   (cnt (ReadConfigfileServe rs) = 0) = (sent (trace (ReadConfigfileServe rs)) = [])"
  using serve_inv_run [of rs] by (simp add: serve_inv_def go_int_of_nat_eq_0)

lemma serve_inv_notFoundCnt:
  "length rs < 2 ^ 63 \<Longrightarrow> \<not> exited (ReadConfigfileServe rs) \<Longrightarrow>
   notFoundCnt (ReadConfigfileServe rs) = of_nat (not_found_failures rs)"
  using serve_inv_run [of rs] by (simp add: serve_inv_def)

lemma published_alive:
  "length rs < 2 ^ 63 \<Longrightarrow> sent (trace (ReadConfigfileServe rs)) \<noteq> [] \<Longrightarrow>
   \<not> exited (ReadConfigfileServe rs)"
  using serve_inv_run [of rs] by (auto simp: serve_inv_def)

lemma serve_step_trace: "\<exists>new. trace (serve_step s r) = trace s @ new"
proof (cases r)
  case (Inr c)
  then show ?thesis by (simp add: serve_step_def serve_body_Inr)
next
  case (Inl err)
  then show ?thesis
    by (cases "err = NotFound") (simp_all add: serve_step_def serve_body_NotFound serve_body_other)
qed

lemma foldl_serve_step_trace: "\<exists>new. trace (foldl serve_step s rs) = trace s @ new"
proof (induction rs arbitrary: s)
  case Nil
  show ?case by simp
next
  case (Cons r rs)
  from serve_step_trace [of s r] obtain n1 where "trace (serve_step s r) = trace s @ n1" ..
  moreover from Cons.IH [of "serve_step s r"] obtain n2 where
    "trace (foldl serve_step (serve_step s r) rs) = trace (serve_step s r) @ n2" ..
  ultimately show ?case by simp
qed

lemma ReadConfigfileServe_append:
  "ReadConfigfileServe (rs @ rs') = foldl serve_step (ReadConfigfileServe rs) rs'"
  by (simp add: ReadConfigfileServe_def)

lemma published_stays:
  "sent (trace (ReadConfigfileServe rs)) \<noteq> [] \<Longrightarrow>
   sent (trace (ReadConfigfileServe (rs @ rs'))) \<noteq> []"
  using foldl_serve_step_trace [of "ReadConfigfileServe rs" rs']
  by (auto simp: ReadConfigfileServe_append sent_append)

lemma foldl_serve_step_exited: "exited s \<Longrightarrow> foldl serve_step s rs = s"
  by (induction rs) (simp_all add: serve_step_def)

lemma serve_step_notFoundCnt:
  "notFoundCnt (serve_step s r) = notFoundCnt s + (if \<not> exited s \<and> r = Inl NotFound then 1 else 0)"
proof (cases r)
  case (Inr c)
  then show ?thesis by (simp add: serve_step_def serve_body_Inr)
next
  case (Inl err)
  then show ?thesis
    by (cases "err = NotFound") (simp_all add: serve_step_def serve_body_NotFound serve_body_other)
qed

lemma foldl_serve_step_notFoundCnt:
  "\<exists>k\<le>length rs. notFoundCnt (foldl serve_step s rs) = notFoundCnt s + of_nat k"
proof (induction rs arbitrary: s)
  case Nil
  show ?case by simp
next
  case (Cons r rs)
  from Cons.IH [of "serve_step s r"] obtain k where k: "k \<le> length rs"
    "notFoundCnt (foldl serve_step (serve_step s r) rs) = notFoundCnt (serve_step s r) + of_nat k"
    by blast
  show ?case
  proof (cases "\<not> exited s \<and> r = Inl NotFound")
    case True
    with k show ?thesis
      by (intro exI [of _ "Suc k"]) (simp add: serve_step_notFoundCnt)
  next
    case False
    with k show ?thesis
      by (intro exI [of _ k]) (auto simp: serve_step_notFoundCnt)
  qed
qed

lemma notFoundCnt_monotone:
  assumes "length (rs @ rs') < 2 ^ 63"
  shows "sint (notFoundCnt (ReadConfigfileServe rs))
           \<le> sint (notFoundCnt (ReadConfigfileServe (rs @ rs')))"
proof -
  from foldl_serve_step_notFoundCnt [of rs "\<lparr>cnt = 0, notFoundCnt = 0, trace = [], exited = False\<rparr>"]
  obtain m where m: "m \<le> length rs" "notFoundCnt (ReadConfigfileServe rs) = of_nat m"
    by (auto simp: ReadConfigfileServe_def)
  from foldl_serve_step_notFoundCnt [of rs' "ReadConfigfileServe rs"]
  obtain k where k: "k \<le> length rs'"
    "notFoundCnt (ReadConfigfileServe (rs @ rs')) = of_nat (m + k)"
    by (auto simp: ReadConfigfileServe_append m)
  from assms m(1) k(1) have "m < 2 ^ 63" "m + k < 2 ^ 63" by simp_all
  then show ?thesis by (simp add: m(2) k(2) go_int_sint_of_nat del: of_nat_add)
qed

lemma go_int_sint_succ: "Suc n < 2 ^ 63 \<Longrightarrow> sint (of_nat n + 1 :: go_int) = int n + 1"
  using go_int_sint_of_nat [of "Suc n"] by (simp add: add.commute)

lemma replicate_Suc_snoc: "replicate (Suc k) x = replicate k x @ [x]"
  by (simp add: replicate_append_same)

lemma startup_retries:
  "k < 5 \<Longrightarrow>
   ReadConfigfileServe (replicate k (Inl NotFound)) =
     \<lparr>cnt = 0, notFoundCnt = of_nat k,
      trace = concat (replicate k [Log Warn_config_file_not_loaded, Sleep 5]),
      exited = False\<rparr>"
proof (induction k)
  case 0
  show ?case by (simp add: ReadConfigfileServe_def)
next
  case (Suc k)
  then have k: "k < 4" by simp
  then have "Suc k < 2 ^ 63" by simp
  then have "sint (of_nat k + 1 :: go_int) = int k + 1" by (rule go_int_sint_succ)
  then have "sint (of_nat k + 1 :: go_int) < 5" using k by simp
  with Suc show ?case
    by (simp add: replicate_Suc_snoc ReadConfigfileServe_snoc serve_step_def
        serve_body_NotFound add.commute del: replicate.simps)
qed

section \<open>Claims about the reload loop\<close>

text \<open>
  The theorems about runs carry the hypothesis that the run has fewer than \<open>2 ^ 63\<close>
  load attempts. Each pass through the loop increments each counter at most once, so
  within this bound neither \<^verbatim>\<open>cnt\<close> nor \<^verbatim>\<open>notFoundCnt\<close> wraps around, and the 64-bit
  values are the true counts.
\<close>

text \<open>
  Claim C1, as the specification states it: a \<open>NotFound\<close> failure after at least one
  published snapshot makes the loop log a warning and wait for the next notification,
  without entering the sleep-and-retry path. The code does otherwise on the run below:
  the first load succeeds and is published, the second fails with \<open>NotFound\<close>, and the
  loop logs the warning of line 64, sleeps and goes back to the load (\<^verbatim>\<open>continue\<close>, line
  68) without receiving from \<^verbatim>\<open>sigReloadConfig\<close>.
\<close>

theorem reload_NotFound_retries_counterexample:
  "ReadConfigfileServe [Inr (snapshot [] []), Inl NotFound] =
     \<lparr>cnt = 1, notFoundCnt = 1,
      trace = [Log Info_Finished_reading_the_config_file, Send (snapshot [] []), Receive,
               Log Info_Reload_the_config_file,
               Log Warn_config_file_not_loaded, Sleep 5],
      exited = False\<rparr>"
  by (simp add: ReadConfigfileServe_def serve_step_def serve_body_Inr serve_body_NotFound)

text \<open>
  Claim C1, amended: after at least one published snapshot, a \<open>NotFound\<close> failure logs
  a warning, sends nothing, leaves the current snapshot as it is and never ends the
  process. When it is the fifth or a later \<open>NotFound\<close> failure of the run, the loop also
  logs the error of line 70 and the reload warning, and then waits for the next
  notification without sleeping. When it is one of the first four, the loop sleeps and
  retries the load without waiting for a notification.
\<close>

theorem reload_NotFound_after_publish:
  assumes "length (rs @ [Inl NotFound]) < 2 ^ 63"
    and "sent (trace (ReadConfigfileServe rs)) \<noteq> []"
  shows "trace (ReadConfigfileServe (rs @ [Inl NotFound])) =
           trace (ReadConfigfileServe rs) @
           (if not_found_failures (rs @ [Inl NotFound]) < 5
            then [Log Warn_config_file_not_loaded, Sleep 5]
            else [Log Warn_config_file_not_loaded,
                  Log Error_config_file_not_loaded_max_times_exceed,
                  Log (Warning_Cant_reload_config_file NotFound),
                  Receive, Log Info_Reload_the_config_file])
         \<and> \<not> exited (ReadConfigfileServe (rs @ [Inl NotFound]))
         \<and> current_snapshot (trace (ReadConfigfileServe (rs @ [Inl NotFound]))) =
             current_snapshot (trace (ReadConfigfileServe rs))"
proof -
  let ?s = "ReadConfigfileServe rs"
  from assms(1) have len: "length rs < 2 ^ 63" and nf: "Suc (not_found_failures rs) < 2 ^ 63"
    using not_found_failures_le [of rs] by simp_all
  from published_alive [OF len assms(2)] have alive: "\<not> exited ?s" .
  from serve_inv_cnt [OF len alive] assms(2) have cnt: "cnt ?s \<noteq> 0" by simp
  have "sint (notFoundCnt ?s + 1) = int (not_found_failures rs) + 1"
    by (simp only: serve_inv_notFoundCnt [OF len alive] go_int_sint_succ [OF nf])
  with alive cnt show ?thesis
    by (simp add: ReadConfigfileServe_snoc serve_step_def serve_body_NotFound
        not_found_failures_snoc current_snapshot_def sent_append)
qed

text \<open>
  Witness for C1 as amended: one published snapshot, then four \<open>NotFound\<close> failures;
  the fifth one is reported and the loop waits for the next notification.
\<close>

theorem reload_NotFound_after_publish_witness:
  "length ([Inr (snapshot [] []), Inl NotFound, Inl NotFound, Inl NotFound, Inl NotFound]
           @ [Inl NotFound]) < 2 ^ 63
   \<and> sent (trace (ReadConfigfileServe
        [Inr (snapshot [] []), Inl NotFound, Inl NotFound, Inl NotFound, Inl NotFound])) \<noteq> []
   \<and> trace (ReadConfigfileServe
        ([Inr (snapshot [] []), Inl NotFound, Inl NotFound, Inl NotFound, Inl NotFound]
         @ [Inl NotFound])) =
       trace (ReadConfigfileServe
        [Inr (snapshot [] []), Inl NotFound, Inl NotFound, Inl NotFound, Inl NotFound]) @
       [Log Warn_config_file_not_loaded,
        Log Error_config_file_not_loaded_max_times_exceed,
        Log (Warning_Cant_reload_config_file NotFound),
        Receive, Log Info_Reload_the_config_file]"
proof -
  let ?rs = "[Inr (snapshot [] []), Inl NotFound, Inl NotFound, Inl NotFound, Inl NotFound]"
  have len: "length (?rs @ [Inl NotFound]) < 2 ^ 63" by simp
  have pub: "sent (trace (ReadConfigfileServe ?rs)) \<noteq> []"
    by (simp add: ReadConfigfileServe_def serve_step_def serve_body_Inr serve_body_NotFound)
  from reload_NotFound_after_publish [OF len pub] len pub show ?thesis
    by (simp add: not_found_failures_def)
qed

text \<open>
  Claim C2: at startup, before any snapshot is published, each \<open>NotFound\<close> failure
  increments the not-found counter; while the counter is below 5 the loop pauses for the
  fixed delay and retries the load. After \<open>k < 5\<close> such failures the process is still
  running with the counter at \<open>k\<close>; when the next load succeeds the snapshot is
  published; and when the first five loads all fail with \<open>NotFound\<close> the process logs
  the fatal report and exits, whatever would have come next.
\<close>

theorem startup_NotFound_retry_ceiling:
  fixes c :: 'c and rs :: "(error + 'c) list"
  assumes "k < 5"
  shows "ReadConfigfileServe (replicate k (Inl NotFound) :: (error + 'c) list) =
           \<lparr>cnt = 0, notFoundCnt = of_nat k,
            trace = concat (replicate k [Log Warn_config_file_not_loaded, Sleep 5]),
            exited = False\<rparr>
         \<and> ReadConfigfileServe (replicate k (Inl NotFound) @ [Inr c]) =
           \<lparr>cnt = 1, notFoundCnt = of_nat k,
            trace = concat (replicate k [Log Warn_config_file_not_loaded, Sleep 5]) @
                    [Log Info_Finished_reading_the_config_file, Send c, Receive,
                     Log Info_Reload_the_config_file],
            exited = False\<rparr>
         \<and> ReadConfigfileServe (replicate 5 (Inl NotFound) @ rs) =
           \<lparr>cnt = 0, notFoundCnt = 5,
            trace = concat (replicate 4 [Log Warn_config_file_not_loaded, Sleep 5]) @
                    [Log Warn_config_file_not_loaded,
                     Log Error_config_file_not_loaded_max_times_exceed,
                     Log (Fatal_Cant_read_config_file NotFound), Exit 1],
            exited = True\<rparr>"
proof (intro conjI)
  show base: "ReadConfigfileServe (replicate k (Inl NotFound) :: (error + 'c) list) =
           \<lparr>cnt = 0, notFoundCnt = of_nat k,
            trace = concat (replicate k [Log Warn_config_file_not_loaded, Sleep 5]),
            exited = False\<rparr>"
    using assms by (rule startup_retries)
  show "ReadConfigfileServe (replicate k (Inl NotFound) @ [Inr c]) =
           \<lparr>cnt = 1, notFoundCnt = of_nat k,
            trace = concat (replicate k [Log Warn_config_file_not_loaded, Sleep 5]) @
                    [Log Info_Finished_reading_the_config_file, Send c, Receive,
                     Log Info_Reload_the_config_file],
            exited = False\<rparr>"
    by (simp add: ReadConfigfileServe_snoc base serve_step_def serve_body_Inr)
  have four: "ReadConfigfileServe (replicate 4 (Inl NotFound) :: (error + 'c) list) =
           \<lparr>cnt = 0, notFoundCnt = of_nat 4,
            trace = concat (replicate 4 [Log Warn_config_file_not_loaded, Sleep 5]),
            exited = False\<rparr>"
    by (rule startup_retries) simp
  have "replicate 5 (Inl NotFound) = replicate 4 (Inl NotFound) @ [Inl NotFound :: error + 'c]"
    by (simp add: eval_nat_numeral)
  then have "ReadConfigfileServe (replicate 5 (Inl NotFound) :: (error + 'c) list) =
           \<lparr>cnt = 0, notFoundCnt = 5,
            trace = concat (replicate 4 [Log Warn_config_file_not_loaded, Sleep 5]) @
                    [Log Warn_config_file_not_loaded,
                     Log Error_config_file_not_loaded_max_times_exceed,
                     Log (Fatal_Cant_read_config_file NotFound), Exit 1],
            exited = True\<rparr>"
    by (simp add: ReadConfigfileServe_snoc four serve_step_def serve_body_NotFound
        del: replicate.simps concat.simps)
  then show "ReadConfigfileServe (replicate 5 (Inl NotFound) @ rs) =
           \<lparr>cnt = 0, notFoundCnt = 5,
            trace = concat (replicate 4 [Log Warn_config_file_not_loaded, Sleep 5]) @
                    [Log Warn_config_file_not_loaded,
                     Log Error_config_file_not_loaded_max_times_exceed,
                     Log (Fatal_Cant_read_config_file NotFound), Exit 1],
            exited = True\<rparr>"
    by (simp add: ReadConfigfileServe_append foldl_serve_step_exited
        del: replicate.simps concat.simps)
qed

text \<open>
  Witness for C2, the scenario of the specification: the file is missing at the first
  attempt and at two retries and is there at the third retry, so the snapshot is
  published; five failures in a row end the process.
\<close>

theorem startup_NotFound_retry_ceiling_witness:
  "(3::nat) < 5
   \<and> ReadConfigfileServe [Inl NotFound, Inl NotFound, Inl NotFound, Inr (snapshot [] [])] =
       \<lparr>cnt = 1, notFoundCnt = 3,
        trace = [Log Warn_config_file_not_loaded, Sleep 5,
                 Log Warn_config_file_not_loaded, Sleep 5,
                 Log Warn_config_file_not_loaded, Sleep 5,
                 Log Info_Finished_reading_the_config_file, Send (snapshot [] []), Receive,
                 Log Info_Reload_the_config_file],
        exited = False\<rparr>
   \<and> exited (ReadConfigfileServe
        [Inl NotFound, Inl NotFound, Inl NotFound, Inl NotFound, Inl NotFound,
         Inr (snapshot [] [])])"
  using startup_NotFound_retry_ceiling [of 3 "snapshot [] []" "[Inr (snapshot [] [])]"]
  by (simp add: eval_nat_numeral)

text \<open>
  Claim C3: once a snapshot has been published, a load error of any kind only adds
  log entries, among them a warning; nothing is sent on the consumer channel for the
  failed attempt, the snapshot published last stays the current one, and the process
  does not exit, neither at this attempt nor at any later one.
\<close>

theorem reload_error_never_fatal:
  assumes "length (rs @ Inl err # rs') < 2 ^ 63"
    and "sent (trace (ReadConfigfileServe rs)) \<noteq> []"
  shows "(\<exists>new. trace (ReadConfigfileServe (rs @ [Inl err])) =
                  trace (ReadConfigfileServe rs) @ new
               \<and> sent new = []
               \<and> (Log Warn_config_file_not_loaded \<in> set new
                  \<or> Log (Warning_Cant_reload_config_file err) \<in> set new))
         \<and> sent (trace (ReadConfigfileServe (rs @ [Inl err]))) =
             sent (trace (ReadConfigfileServe rs))
         \<and> current_snapshot (trace (ReadConfigfileServe (rs @ [Inl err]))) =
             current_snapshot (trace (ReadConfigfileServe rs))
         \<and> \<not> exited (ReadConfigfileServe (rs @ [Inl err]))
         \<and> \<not> exited (ReadConfigfileServe (rs @ Inl err # rs'))"
proof -
  let ?s = "ReadConfigfileServe rs"
  from assms(1) have len: "length rs < 2 ^ 63" by simp
  from published_alive [OF len assms(2)] have alive: "\<not> exited ?s" .
  from serve_inv_cnt [OF len alive] assms(2) have cnt: "cnt ?s \<noteq> 0" by simp
  have step: "trace (ReadConfigfileServe (rs @ [Inl err])) = trace ?s @
      (if err = NotFound
       then if sint (notFoundCnt ?s + 1) < 5
            then [Log Warn_config_file_not_loaded, Sleep 5]
            else [Log Warn_config_file_not_loaded,
                  Log Error_config_file_not_loaded_max_times_exceed,
                  Log (Warning_Cant_reload_config_file err),
                  Receive, Log Info_Reload_the_config_file]
       else [Log (Warning_Cant_reload_config_file err),
             Receive, Log Info_Reload_the_config_file])"
    using alive cnt
    by (cases "err = NotFound")
      (simp_all add: ReadConfigfileServe_snoc serve_step_def serve_body_NotFound serve_body_other)
  have first: "\<exists>new. trace (ReadConfigfileServe (rs @ [Inl err])) = trace ?s @ new
               \<and> sent new = []
               \<and> (Log Warn_config_file_not_loaded \<in> set new
                  \<or> Log (Warning_Cant_reload_config_file err) \<in> set new)"
    unfolding step by (rule exI, rule conjI, rule refl) simp
  have same: "sent (trace (ReadConfigfileServe (rs @ [Inl err]))) = sent (trace ?s)"
    unfolding step by (simp add: sent_append)
  from assms(1) have len2: "length ((rs @ [Inl err]) @ rs') < 2 ^ 63" by simp
  then have len1: "length (rs @ [Inl err]) < 2 ^ 63" by simp
  from same assms(2) have pub1: "sent (trace (ReadConfigfileServe (rs @ [Inl err]))) \<noteq> []"
    by simp
  from published_alive [OF len1 pub1]
  have alive1: "\<not> exited (ReadConfigfileServe (rs @ [Inl err]))" .
  from published_alive [OF len2 published_stays [OF pub1]]
  have alive2: "\<not> exited (ReadConfigfileServe (rs @ Inl err # rs'))" by simp
  have cur: "current_snapshot (trace (ReadConfigfileServe (rs @ [Inl err]))) =
      current_snapshot (trace ?s)"
    by (simp only: current_snapshot_def same)
  from first same cur alive1 alive2 show ?thesis
    by (intro conjI)
qed

text \<open>
  Witness for C3, the scenario of the specification: one snapshot is published, the
  next load hits a parse error and the one after it fails while defaults are set; the
  published snapshot is still the current one and the process is running.
\<close>

theorem reload_error_never_fatal_witness:
  "length ([Inr (snapshot [] [peer_group ''A'' 65001])] @ Inl ParseError # [Inl DefaultsError])
     < 2 ^ 63
   \<and> sent (trace (ReadConfigfileServe [Inr (snapshot [] [peer_group ''A'' 65001])])) \<noteq> []
   \<and> current_snapshot (trace (ReadConfigfileServe
        ([Inr (snapshot [] [peer_group ''A'' 65001])] @ [Inl ParseError]))) =
       Some (snapshot [] [peer_group ''A'' 65001])
   \<and> \<not> exited (ReadConfigfileServe
        ([Inr (snapshot [] [peer_group ''A'' 65001])] @ Inl ParseError # [Inl DefaultsError]))"
proof -
  let ?c = "snapshot [] [peer_group ''A'' 65001]"
  have len: "length ([Inr ?c] @ Inl ParseError # [Inl DefaultsError]) < 2 ^ 63" by simp
  have pub: "sent (trace (ReadConfigfileServe [Inr ?c])) \<noteq> []"
    by (simp add: ReadConfigfileServe_def serve_step_def serve_body_Inr)
  have cur: "current_snapshot (trace (ReadConfigfileServe [Inr ?c])) = Some ?c"
    by (simp add: ReadConfigfileServe_def serve_step_def serve_body_Inr current_snapshot_def)
  from reload_error_never_fatal [OF len pub] len pub cur show ?thesis by simp
qed

text \<open>
  Claim C10: the not-found counter never decreases over a run and nothing resets it:
  one pass adds one to it exactly when the pass is a \<open>NotFound\<close> failure, so a
  successful load and publish leaves it as it is, and it stays the total number of
  \<open>NotFound\<close> failures since the start. Hence a \<open>NotFound\<close> failure that is the fifth or
  a later one of the run skips the sleep-and-retry path and goes to the error branch:
  a warning when a snapshot was ever published, the fatal exit otherwise.
\<close>

theorem notFoundCnt_never_reset:
  assumes "length (rs @ r # rs') < 2 ^ 63"
  shows "sint (notFoundCnt (ReadConfigfileServe rs))
           \<le> sint (notFoundCnt (ReadConfigfileServe (rs @ [r])))
         \<and> sint (notFoundCnt (ReadConfigfileServe (rs @ [r])))
           \<le> sint (notFoundCnt (ReadConfigfileServe (rs @ r # rs')))
         \<and> notFoundCnt (ReadConfigfileServe (rs @ [r])) =
             notFoundCnt (ReadConfigfileServe rs) +
             (if \<not> exited (ReadConfigfileServe rs) \<and> r = Inl NotFound then 1 else 0)
         \<and> (\<not> exited (ReadConfigfileServe (rs @ [r])) \<longrightarrow>
              sint (notFoundCnt (ReadConfigfileServe (rs @ [r]))) =
              int (not_found_failures (rs @ [r])))
         \<and> (r = Inl NotFound \<and> \<not> exited (ReadConfigfileServe rs)
              \<and> 5 \<le> not_found_failures (rs @ [r]) \<longrightarrow>
              trace (ReadConfigfileServe (rs @ [r])) =
                trace (ReadConfigfileServe rs) @
                [Log Warn_config_file_not_loaded,
                 Log Error_config_file_not_loaded_max_times_exceed] @
                (if sent (trace (ReadConfigfileServe rs)) = []
                 then [Log (Fatal_Cant_read_config_file NotFound), Exit 1]
                 else [Log (Warning_Cant_reload_config_file NotFound),
                       Receive, Log Info_Reload_the_config_file]))"
proof (intro conjI impI)
  let ?s = "ReadConfigfileServe rs"
  from assms have len: "length rs < 2 ^ 63" and len1: "length (rs @ [r]) < 2 ^ 63"
    and len2: "length ((rs @ [r]) @ rs') < 2 ^ 63" by simp_all
  show "sint (notFoundCnt ?s) \<le> sint (notFoundCnt (ReadConfigfileServe (rs @ [r])))"
    using len1 by (rule notFoundCnt_monotone)
  show "sint (notFoundCnt (ReadConfigfileServe (rs @ [r])))
          \<le> sint (notFoundCnt (ReadConfigfileServe (rs @ r # rs')))"
    using notFoundCnt_monotone [OF len2] by simp
  show "notFoundCnt (ReadConfigfileServe (rs @ [r])) =
          notFoundCnt ?s + (if \<not> exited ?s \<and> r = Inl NotFound then 1 else 0)"
    by (simp only: ReadConfigfileServe_snoc serve_step_notFoundCnt)
  show "sint (notFoundCnt (ReadConfigfileServe (rs @ [r]))) = int (not_found_failures (rs @ [r]))"
    if "\<not> exited (ReadConfigfileServe (rs @ [r]))"
  proof -
    from len1 not_found_failures_le [of "rs @ [r]"]
    have "not_found_failures (rs @ [r]) < 2 ^ 63" by simp
    then show ?thesis
      by (simp only: serve_inv_notFoundCnt [OF len1 that] go_int_sint_of_nat)
  qed
  show "trace (ReadConfigfileServe (rs @ [r])) =
          trace ?s @
          [Log Warn_config_file_not_loaded,
           Log Error_config_file_not_loaded_max_times_exceed] @
          (if sent (trace ?s) = []
           then [Log (Fatal_Cant_read_config_file NotFound), Exit 1]
           else [Log (Warning_Cant_reload_config_file NotFound),
                 Receive, Log Info_Reload_the_config_file])"
    if h: "r = Inl NotFound \<and> \<not> exited ?s \<and> 5 \<le> not_found_failures (rs @ [r])"
  proof -
    from h have r: "r = Inl NotFound" and alive: "\<not> exited ?s"
      and five: "4 \<le> not_found_failures rs"
      by (auto simp: not_found_failures_snoc)
    from len1 not_found_failures_le [of rs] have nf: "Suc (not_found_failures rs) < 2 ^ 63"
      by simp
    have "sint (notFoundCnt ?s + 1) = int (not_found_failures rs) + 1"
      by (simp only: serve_inv_notFoundCnt [OF len alive] go_int_sint_succ [OF nf])
    with five have ceiling: "\<not> sint (notFoundCnt ?s + 1) < 5" by simp
    from ceiling alive r serve_inv_cnt [OF len alive] show ?thesis
      by (simp add: ReadConfigfileServe_snoc serve_step_def serve_body_NotFound)
  qed
qed

text \<open>
  Witness for C10: a snapshot is published, then the file is missing at five loads. The
  publish left the counter alone, the fifth failure brings it to 5, and that failure
  is reported by the error branch as a reload warning, with no sleep.
\<close>

theorem notFoundCnt_never_reset_witness:
  "length ([Inl NotFound, Inl NotFound, Inr (snapshot [] []), Inl NotFound, Inl NotFound]
           @ Inl NotFound # [Inr (snapshot [] [])]) < 2 ^ 63
   \<and> \<not> exited (ReadConfigfileServe
        [Inl NotFound, Inl NotFound, Inr (snapshot [] []), Inl NotFound, Inl NotFound])
   \<and> 5 \<le> not_found_failures
        ([Inl NotFound, Inl NotFound, Inr (snapshot [] []), Inl NotFound, Inl NotFound]
         @ [Inl NotFound])
   \<and> sint (notFoundCnt (ReadConfigfileServe
        ([Inl NotFound, Inl NotFound, Inr (snapshot [] []), Inl NotFound, Inl NotFound]
         @ [Inl NotFound]))) = 5
   \<and> trace (ReadConfigfileServe
        ([Inl NotFound, Inl NotFound, Inr (snapshot [] []), Inl NotFound, Inl NotFound]
         @ [Inl NotFound])) =
       trace (ReadConfigfileServe
        [Inl NotFound, Inl NotFound, Inr (snapshot [] []), Inl NotFound, Inl NotFound]) @
       [Log Warn_config_file_not_loaded,
        Log Error_config_file_not_loaded_max_times_exceed,
        Log (Warning_Cant_reload_config_file NotFound),
        Receive, Log Info_Reload_the_config_file]"
proof -
  let ?rs = "[Inl NotFound, Inl NotFound, Inr (snapshot [] []), Inl NotFound, Inl NotFound]"
  have len: "length (?rs @ Inl NotFound # [Inr (snapshot [] [])]) < 2 ^ 63" by simp
  have run: "ReadConfigfileServe ?rs =
      \<lparr>cnt = 1, notFoundCnt = 4,
       trace = [Log Warn_config_file_not_loaded, Sleep 5,
                Log Warn_config_file_not_loaded, Sleep 5,
                Log Info_Finished_reading_the_config_file, Send (snapshot [] []), Receive,
                Log Info_Reload_the_config_file,
                Log Warn_config_file_not_loaded, Sleep 5,
                Log Warn_config_file_not_loaded, Sleep 5],
       exited = False\<rparr>"
    by (simp add: ReadConfigfileServe_def serve_step_def serve_body_Inr serve_body_NotFound)
  have five: "5 \<le> not_found_failures (?rs @ [Inl NotFound])"
    by (simp add: not_found_failures_def)
  from notFoundCnt_never_reset [OF len] five show ?thesis
    by (simp add: run)
qed

section \<open>Claims about the diff engine\<close>

text \<open>
  Claim C4: the PeerGroup diff of an old and a new snapshot never panics and returns, in
  this order, the added, the deleted and the updated PeerGroups that the specification
  describes: added is each PeerGroup of the new snapshot whose name is not found in the
  old one; deleted is each PeerGroup of the old snapshot whose name is not found in
  the new one; updated is each PeerGroup of the new snapshot whose name is found in the
  old one with a value that is not deep-equal; a deep-equal pair appears nowhere. On
  the scenario of the specification, old A with AS 65001 against new A with AS 65002
  and B with AS 65003, the result is added B, nothing deleted, updated A with AS
  65002.
\<close>

theorem UpdatePeerGroupConfig_diff:
  "UpdatePeerGroupConfig curC newC = Inr (PeerGroupDiff (PeerGroups curC) (PeerGroups newC))
   \<and> UpdatePeerGroupConfig
        (snapshot [] [peer_group ''A'' 65001])
        (snapshot [] [peer_group ''A'' 65002, peer_group ''B'' 65003])
      = Inr ([peer_group ''B'' 65003], [], [peer_group ''A'' 65002])"
  by (simp add: UpdatePeerGroupConfig_eq PeerGroupDiff_def lookup_PeerGroup_def
      PeerGroup_Equal_def snapshot_def peer_group_def)

text \<open>
  Claim C5: the Neighbor diff is the same algorithm keyed by the peer address: added is
  each Neighbor of the new snapshot whose address is not found in the old one, deleted
  each Neighbor of the old snapshot whose address is not found in the new one, updated
  each Neighbor of the new snapshot whose address is found in the old one with a value
  that is not deep-equal. On the scenario of the specification, old 10.0.0.1 and
  10.0.0.2 against new 10.0.0.1, nothing is added, 10.0.0.2 is deleted and nothing is
  updated.
\<close>

theorem UpdateNeighborConfig_diff:
  "UpdateNeighborConfig curC newC = Inr (NeighborDiff (Neighbors curC) (Neighbors newC))
   \<and> UpdateNeighborConfig
        (snapshot [neighbor ''10.0.0.1'', neighbor ''10.0.0.2''] [])
        (snapshot [neighbor ''10.0.0.1''] [])
      = Inr ([], [neighbor ''10.0.0.2''], [])"
  by (simp add: UpdateNeighborConfig_eq NeighborDiff_def lookup_Neighbor_def
      Neighbor_Equal_def snapshot_def neighbor_def)

text \<open>
  Claim C6: for all snapshots A and B, the deleted sequence of the PeerGroup diff of
  (A, B) is the added sequence of the diff of (B, A), and the added sequence of the
  diff of (A, B) is the deleted sequence of the diff of (B, A).
\<close>

theorem UpdatePeerGroupConfig_antisymmetric:
  "\<exists>added deleted updated updated'.
     UpdatePeerGroupConfig A B = Inr (added, deleted, updated) \<and>
     UpdatePeerGroupConfig B A = Inr (deleted, added, updated')"
proof -
  let ?absent = "\<lambda>pgs n. lookup_PeerGroup (PeerGroupName (Config n)) pgs = None"
  let ?changed = "\<lambda>pgs n. case lookup_PeerGroup (PeerGroupName (Config n)) pgs of
                              None \<Rightarrow> False
                            | Some c \<Rightarrow> \<not> PeerGroup_Equal n c"
  have ab: "UpdatePeerGroupConfig A B =
      Inr (filter (?absent (PeerGroups A)) (PeerGroups B),
           filter (?absent (PeerGroups B)) (PeerGroups A),
           filter (?changed (PeerGroups A)) (PeerGroups B))"
    by (simp add: UpdatePeerGroupConfig_eq PeerGroupDiff_def)
  have ba: "UpdatePeerGroupConfig B A =
      Inr (filter (?absent (PeerGroups B)) (PeerGroups A),
           filter (?absent (PeerGroups A)) (PeerGroups B),
           filter (?changed (PeerGroups B)) (PeerGroups A))"
    by (simp add: UpdatePeerGroupConfig_eq PeerGroupDiff_def)
  from ab ba show ?thesis by blast
qed

text \<open>
  Claim C7: the PeerGroup diff of a snapshot against itself yields empty added, deleted
  and updated sequences. A snapshot has unique PeerGroup names (invariant I1 of the
  specification).
\<close>

theorem UpdatePeerGroupConfig_self:
  assumes "unique_PeerGroup_names A"
  shows "UpdatePeerGroupConfig A A = Inr ([], [], [])"
proof -
  have "lookup_PeerGroup (PeerGroupName (Config n)) (PeerGroups A) = Some n"
    if "n \<in> set (PeerGroups A)" for n
    using assms that unfolding unique_PeerGroup_names_def lookup_PeerGroup_def
    by (rule find_key_distinct)
  then show ?thesis
    by (simp add: UpdatePeerGroupConfig_eq PeerGroupDiff_def PeerGroup_Equal_def
        filter_empty_conv)
qed

text \<open>Witness for C7: a snapshot with two PeerGroups, diffed against itself.\<close>

theorem UpdatePeerGroupConfig_self_witness:
  "unique_PeerGroup_names (snapshot [] [peer_group ''A'' 65001, peer_group ''B'' 65003])
   \<and> UpdatePeerGroupConfig
        (snapshot [] [peer_group ''A'' 65001, peer_group ''B'' 65003])
        (snapshot [] [peer_group ''A'' 65001, peer_group ''B'' 65003])
      = Inr ([], [], [])"
proof -
  have u: "unique_PeerGroup_names (snapshot [] [peer_group ''A'' 65001, peer_group ''B'' 65003])"
    by (simp add: unique_PeerGroup_names_def snapshot_def peer_group_def)
  from UpdatePeerGroupConfig_self [OF u] u show ?thesis by simp
qed

text \<open>
  Claim C8: the routing-policy diff is false when both policies are nil and true when
  exactly one is nil; when both are present it is true exactly when they are not
  deep-equal, that is, it is false exactly when the two have the same defined sets and
  the same ordered sequence of policy definitions.
\<close>

theorem CheckPolicyDifference_cases:
  "CheckPolicyDifference None None = False
   \<and> CheckPolicyDifference None (Some p) = True
   \<and> CheckPolicyDifference (Some p) None = True
   \<and> CheckPolicyDifference (Some p) (Some q) = (\<not> RoutingPolicy_Equal p q)
   \<and> (CheckPolicyDifference (Some p) (Some q) = False) =
       (DefinedSets p = DefinedSets q \<and> PolicyDefinitions p = PolicyDefinitions q)"
proof (intro conjI)
  show "CheckPolicyDifference None None = False"
    by (simp add: CheckPolicyDifference_def)
  show "CheckPolicyDifference None (Some p) = True"
    by (simp add: CheckPolicyDifference_def)
  show "CheckPolicyDifference (Some p) None = True"
    by (simp add: CheckPolicyDifference_def)
  show both: "CheckPolicyDifference (Some p) (Some q) = (\<not> RoutingPolicy_Equal p q)"
    by (simp add: CheckPolicyDifference_def)
  show "(CheckPolicyDifference (Some p) (Some q) = False) =
      (DefinedSets p = DefinedSets q \<and> PolicyDefinitions p = PolicyDefinitions q)"
    unfolding both by (simp add: RoutingPolicy_Equal_def)
qed

text \<open>
  Claim C9: an entity that is in the old and in the new snapshot under the same
  identity key, as \<open>c\<close> in the old and \<open>n\<close> in the new one, is in neither the added nor
  the deleted sequence of the diff, in either of its two values; it is in the updated
  sequence, with its new value, exactly when the two values are not deep-equal, and it
  is omitted from all three when they are. This holds of the PeerGroup diff and of the
  Neighbor diff; the old snapshot has unique keys (invariant I1).
\<close>

theorem diff_common_key:
  assumes "unique_PeerGroup_names old" and "unique_Neighbor_addresses old"
  shows "(\<forall>c \<in> set (PeerGroups old). \<forall>n \<in> set (PeerGroups new).
            PeerGroupName (Config c) = PeerGroupName (Config n) \<longrightarrow>
            (\<exists>added deleted updated.
               UpdatePeerGroupConfig old new = Inr (added, deleted, updated) \<and>
               n \<notin> set added \<and> n \<notin> set deleted \<and> c \<notin> set added \<and> c \<notin> set deleted \<and>
               c \<notin> set updated \<and> (n \<in> set updated) = (\<not> PeerGroup_Equal n c)))
       \<and> (\<forall>c \<in> set (Neighbors old). \<forall>n \<in> set (Neighbors new).
            NeighborAddress c = NeighborAddress n \<longrightarrow>
            (\<exists>added deleted updated.
               UpdateNeighborConfig old new = Inr (added, deleted, updated) \<and>
               n \<notin> set added \<and> n \<notin> set deleted \<and> c \<notin> set added \<and> c \<notin> set deleted \<and>
               c \<notin> set updated \<and> (n \<in> set updated) = (\<not> Neighbor_Equal n c)))"
proof (intro conjI ballI impI)
  fix c n
  assume c: "c \<in> set (PeerGroups old)" and n: "n \<in> set (PeerGroups new)"
    and key: "PeerGroupName (Config c) = PeerGroupName (Config n)"
  have old_c: "lookup_PeerGroup (PeerGroupName (Config c)) (PeerGroups old) = Some c"
    using assms(1) c unfolding unique_PeerGroup_names_def lookup_PeerGroup_def
    by (rule find_key_distinct)
  have new_n: "lookup_PeerGroup (PeerGroupName (Config n)) (PeerGroups new) \<noteq> None"
    using n by (auto simp: lookup_PeerGroup_def find_None_iff)
  show "\<exists>added deleted updated.
          UpdatePeerGroupConfig old new = Inr (added, deleted, updated) \<and>
          n \<notin> set added \<and> n \<notin> set deleted \<and> c \<notin> set added \<and> c \<notin> set deleted \<and>
          c \<notin> set updated \<and> (n \<in> set updated) = (\<not> PeerGroup_Equal n c)"
    using old_c new_n key n
    by (auto simp: UpdatePeerGroupConfig_eq PeerGroupDiff_def PeerGroup_Equal_def)
next
  fix c n
  assume c: "c \<in> set (Neighbors old)" and n: "n \<in> set (Neighbors new)"
    and key: "NeighborAddress c = NeighborAddress n"
  have old_c: "lookup_Neighbor (NeighborAddress c) (Neighbors old) = Some c"
    using assms(2) c unfolding unique_Neighbor_addresses_def lookup_Neighbor_def
    by (rule find_key_distinct)
  have new_n: "lookup_Neighbor (NeighborAddress n) (Neighbors new) \<noteq> None"
    using n by (auto simp: lookup_Neighbor_def find_None_iff)
  show "\<exists>added deleted updated.
          UpdateNeighborConfig old new = Inr (added, deleted, updated) \<and>
          n \<notin> set added \<and> n \<notin> set deleted \<and> c \<notin> set added \<and> c \<notin> set deleted \<and>
          c \<notin> set updated \<and> (n \<in> set updated) = (\<not> Neighbor_Equal n c)"
    using old_c new_n key n
    by (auto simp: UpdateNeighborConfig_eq NeighborDiff_def Neighbor_Equal_def)
qed

text \<open>
  Witness for C9: PeerGroup A changes its AS number and Neighbor 10.0.0.1 is unchanged,
  while PeerGroup B is new and Neighbor 10.0.0.2 is gone. A is in the updated sequence
  only, 10.0.0.1 is in no sequence.
\<close>

theorem diff_common_key_witness:
  "unique_PeerGroup_names
     (snapshot [neighbor ''10.0.0.1'', neighbor ''10.0.0.2''] [peer_group ''A'' 65001])
   \<and> unique_Neighbor_addresses
     (snapshot [neighbor ''10.0.0.1'', neighbor ''10.0.0.2''] [peer_group ''A'' 65001])
   \<and> (\<exists>added deleted updated.
        UpdatePeerGroupConfig
          (snapshot [neighbor ''10.0.0.1'', neighbor ''10.0.0.2''] [peer_group ''A'' 65001])
          (snapshot [neighbor ''10.0.0.1''] [peer_group ''A'' 65002, peer_group ''B'' 65003])
          = Inr (added, deleted, updated)
        \<and> peer_group ''A'' 65002 \<notin> set added \<and> peer_group ''A'' 65002 \<notin> set deleted
        \<and> peer_group ''A'' 65001 \<notin> set added \<and> peer_group ''A'' 65001 \<notin> set deleted
        \<and> peer_group ''A'' 65001 \<notin> set updated \<and> peer_group ''A'' 65002 \<in> set updated)
   \<and> (\<exists>added deleted updated.
        UpdateNeighborConfig
          (snapshot [neighbor ''10.0.0.1'', neighbor ''10.0.0.2''] [peer_group ''A'' 65001])
          (snapshot [neighbor ''10.0.0.1''] [peer_group ''A'' 65002, peer_group ''B'' 65003])
          = Inr (added, deleted, updated)
        \<and> neighbor ''10.0.0.1'' \<notin> set added \<and> neighbor ''10.0.0.1'' \<notin> set deleted
        \<and> neighbor ''10.0.0.1'' \<notin> set updated)"
proof -
  let ?old = "snapshot [neighbor ''10.0.0.1'', neighbor ''10.0.0.2''] [peer_group ''A'' 65001]"
  let ?new = "snapshot [neighbor ''10.0.0.1''] [peer_group ''A'' 65002, peer_group ''B'' 65003]"
  have u1: "unique_PeerGroup_names ?old"
    by (simp add: unique_PeerGroup_names_def snapshot_def)
  have u2: "unique_Neighbor_addresses ?old"
    by (simp add: unique_Neighbor_addresses_def snapshot_def neighbor_def)
  have c_pg: "peer_group ''A'' 65001 \<in> set (PeerGroups ?old)"
    and n_pg: "peer_group ''A'' 65002 \<in> set (PeerGroups ?new)"
    and c_nb: "neighbor ''10.0.0.1'' \<in> set (Neighbors ?old)"
    and n_nb: "neighbor ''10.0.0.1'' \<in> set (Neighbors ?new)"
    by (simp_all add: snapshot_def)
  have key_pg: "PeerGroupName (Config (peer_group ''A'' 65001)) =
      PeerGroupName (Config (peer_group ''A'' 65002))"
    by (simp add: peer_group_def)
  have changed: "\<not> PeerGroup_Equal (peer_group ''A'' 65002) (peer_group ''A'' 65001)"
    by (simp add: PeerGroup_Equal_def peer_group_def)
  have same: "Neighbor_Equal (neighbor ''10.0.0.1'') (neighbor ''10.0.0.1'')"
    by (simp add: Neighbor_Equal_def)
  note both = diff_common_key [OF u1 u2, of ?new]
  from both [THEN conjunct1, THEN bspec, OF c_pg, THEN bspec, OF n_pg, THEN mp, OF key_pg]
  have pg: "\<exists>added deleted updated.
        UpdatePeerGroupConfig ?old ?new = Inr (added, deleted, updated)
        \<and> peer_group ''A'' 65002 \<notin> set added \<and> peer_group ''A'' 65002 \<notin> set deleted
        \<and> peer_group ''A'' 65001 \<notin> set added \<and> peer_group ''A'' 65001 \<notin> set deleted
        \<and> peer_group ''A'' 65001 \<notin> set updated \<and> peer_group ''A'' 65002 \<in> set updated"
    using changed by blast
  from both [THEN conjunct2, THEN bspec, OF c_nb, THEN bspec, OF n_nb, THEN mp, OF refl]
  have nb: "\<exists>added deleted updated.
        UpdateNeighborConfig ?old ?new = Inr (added, deleted, updated)
        \<and> neighbor ''10.0.0.1'' \<notin> set added \<and> neighbor ''10.0.0.1'' \<notin> set deleted
        \<and> neighbor ''10.0.0.1'' \<notin> set updated"
    using same by blast
  from u1 u2 pg nb show ?thesis by (intro conjI)
qed

end
